theory Spec2Isabelle
  imports Main
begin

section \<open>Python library functions used by \<^verbatim>\<open>autoscrape/scrapers/manual.py\<close>\<close>

text \<open>
  Strings are lists of 8-bit characters, so the model covers ASCII text. The backslash is
  written \<open>bs\<close>; the Python literals \<^verbatim>\<open>"\,"\<close> and \<^verbatim>\<open>"\;"\<close> of the source are
  two-character strings (a backslash followed by the separator), since neither is an escape
  sequence of Python.
\<close>

definition bs :: char where
  "bs = CHR 0x5C"

definition ascii_lowercase :: string where
  "ascii_lowercase = ''abcdefghijklmnopqrstuvwxyz''"

definition ascii_uppercase :: string where
  "ascii_uppercase = ''ABCDEFGHIJKLMNOPQRSTUVWXYZ''"

text \<open>\<^verbatim>\<open>str.lower()\<close> on ASCII: the 26 capital letters are mapped, everything else is kept.\<close>

definition lower_char :: "char \<Rightarrow> char" where
  "lower_char c = (case map_of (zip ascii_uppercase ascii_lowercase) c of Some d \<Rightarrow> d | None \<Rightarrow> c)"

definition lower :: "string \<Rightarrow> string" where
  "lower s = map lower_char s"

text \<open>\<^verbatim>\<open>sub in s\<close> for strings: \<open>sub\<close> occurs in \<open>s\<close> as a contiguous substring.\<close>

fun starts_with :: "string \<Rightarrow> string \<Rightarrow> bool" where
  "starts_with [] s = True"
| "starts_with (p # ps) [] = False"
| "starts_with (p # ps) (c # cs) = (p = c \<and> starts_with ps cs)"

fun str_in :: "string \<Rightarrow> string \<Rightarrow> bool" where
  "str_in sub [] = (sub = [])"
| "str_in sub (c # cs) = (starts_with sub (c # cs) \<or> str_in sub cs)"

text \<open>
  \<^verbatim>\<open>re.split(r'(?<!\\)d', s)\<close> for a one-character delimiter \<open>d\<close>: the string is cut at every
  \<open>d\<close> whose preceding character (in the whole string) is not a backslash. The flag says
  whether the previous character was a backslash; \<open>cur\<close> is the piece read so far.
\<close>

fun re_split_from :: "char \<Rightarrow> bool \<Rightarrow> string \<Rightarrow> string \<Rightarrow> string list" where
  "re_split_from d esc cur [] = [cur]"
| "re_split_from d esc cur (c # cs) =
     (if c = d \<and> \<not> esc then cur # re_split_from d (c = bs) [] cs
      else re_split_from d (c = bs) (cur @ [c]) cs)"

definition re_split :: "char \<Rightarrow> string \<Rightarrow> string list" where
  "re_split d s = re_split_from d False [] s"

text \<open>
  \<^verbatim>\<open>s.replace("\d", "d")\<close>: every occurrence of backslash-\<open>d\<close>, found from the left without
  overlap, is replaced by \<open>d\<close>.
\<close>

fun replace_escaped :: "char \<Rightarrow> string \<Rightarrow> string" where
  "replace_escaped d (x # y # r) =
     (if x = bs \<and> y = d then d # replace_escaped d r else x # replace_escaped d (y # r))"
| "replace_escaped d r = r"

text \<open>\<^verbatim>\<open>s.split(":", 1)\<close>: \<open>None\<close> when there is no colon (the result then has one element).\<close>

fun split_colon :: "string \<Rightarrow> (string \<times> string) option" where
  "split_colon [] = None"
| "split_colon (c # cs) =
     (if c = CHR '':'' then Some ([], cs)
      else (case split_colon cs of None \<Rightarrow> None | Some (a, b) \<Rightarrow> Some (c # a, b)))"

text \<open>
  \<^verbatim>\<open>int(s)\<close> on ASCII text: surrounding white space is dropped, one sign is allowed, then
  decimal digits, in which single underscores may separate digits. \<open>None\<close> stands for the
  \<^verbatim>\<open>ValueError\<close> of Python.
\<close>

definition digit_val :: "char \<Rightarrow> nat option" where
  "digit_val c = map_of (zip ''0123456789'' [0, 1, 2, 3, 4, 5, 6, 7, 8, 9]) c"

definition is_space :: "char \<Rightarrow> bool" where
  "is_space c = (c \<in> set [CHR '' '', CHR 0x09, CHR 0x0A, CHR 0x0B, CHR 0x0C, CHR 0x0D])"

definition strip :: "string \<Rightarrow> string" where
  "strip s = rev (dropWhile is_space (rev (dropWhile is_space s)))"

fun digits_tail :: "nat \<Rightarrow> string \<Rightarrow> nat option" where
  "digits_tail acc [] = Some acc"
| "digits_tail acc (c # cs) =
     (case digit_val c of
        Some v \<Rightarrow> digits_tail (10 * acc + v) cs
      | None \<Rightarrow>
          (if c = CHR ''_'' then
             (case cs of
                [] \<Rightarrow> None
              | e # es \<Rightarrow> (case digit_val e of
                             Some v \<Rightarrow> digits_tail (10 * acc + v) es
                           | None \<Rightarrow> None))
           else None))"

definition parse_nat :: "string \<Rightarrow> nat option" where
  "parse_nat s =
     (case s of
        [] \<Rightarrow> None
      | c # cs \<Rightarrow> (case digit_val c of Some v \<Rightarrow> digits_tail v cs | None \<Rightarrow> None))"

definition py_int :: "string \<Rightarrow> int option" where
  "py_int s =
     (case strip s of
        [] \<Rightarrow> None
      | c # cs \<Rightarrow>
          (if c = CHR ''-'' then map_option (\<lambda>n. - int n) (parse_nat cs)
           else if c = CHR ''+'' then map_option int (parse_nat cs)
           else map_option int (parse_nat (c # cs))))"

text \<open>
  \<^verbatim>\<open>itertools.product(pool, repeat=n)\<close>, as its documentation defines it: starting from the
  empty tuple, each round extends every tuple found so far by every element of the pool.
\<close>

primrec product_repeat :: "'a list \<Rightarrow> nat \<Rightarrow> 'a list list" where
  "product_repeat pool 0 = [[]]"
| "product_repeat pool (Suc n) =
     concat (map (\<lambda>x. map (\<lambda>y. x @ [y]) pool) (product_repeat pool n))"

section \<open>The scraper's configuration\<close>

text \<open>
  The fields \<^verbatim>\<open>__init__\<close> stores on the scraper, with their Python types: \<^verbatim>\<open>None\<close> is
  \<open>None\<close>, an integer is an \<open>int\<close>. The remaining constructor arguments go to the
  controller.
\<close>

record config =
  maxdepth :: int
  formdepth :: int
  next_match :: string
  form_match :: string
  output_data_dir :: "string option"
  input_minlength :: int
  form_input_range :: "string option"
  wildcard :: "string option"
  link_priority :: string
  form_submit_natural_click :: bool
  form_submit_wait :: int
  form_input_index :: int
  input_type :: string
  input_strings :: string

text \<open>The defaults of the constructor's keyword arguments.\<close>

definition default_config :: config where
  "default_config =
     \<lparr> maxdepth = 10, formdepth = 0, next_match = ''next page'', form_match = ''first name'',
       output_data_dir = None, input_minlength = 1, form_input_range = None, wildcard = None,
       link_priority = ''search'', form_submit_natural_click = False, form_submit_wait = 5,
       form_input_index = 0, input_type = ''character_iteration'', input_strings = [] \<rparr>"

text \<open>Python's truth value of an optional string: \<^verbatim>\<open>None\<close> and \<^verbatim>\<open>""\<close> are false.\<close>

definition truthy :: "string option \<Rightarrow> bool" where
  "truthy v = (case v of None \<Rightarrow> False | Some s \<Rightarrow> s \<noteq> [])"

datatype py_exception = TypeError | ValueError | InvalidInputCombination

section \<open>Input plan generators\<close>

text \<open>
  One form input is the dictionary \<^verbatim>\<open>{"index": i, "string": s}\<close>, modelled as the pair
  \<open>(i, s)\<close>; an input plan is a list of them. A generator is read to its end by the
  caller's loop: it is the list of values it yields, in order, and the way it ends
  (\<open>None\<close> when it is exhausted, \<open>Some e\<close> when it raises \<open>e\<close> after the values before).
\<close>

type_synonym single_input = "int \<times> string"

type_synonym input_plan = "single_input list"

type_synonym 'a generator = "'a list \<times> py_exception option"

definition character_iteration_input_generator :: "config \<Rightarrow> int \<Rightarrow> input_plan generator" where
  "character_iteration_input_generator cfg len =
     (let chars = (if truthy (form_input_range cfg) then the (form_input_range cfg)
                   else ascii_lowercase)
      in if len < 0 then ([], Some ValueError)
         else (map (\<lambda>inp. [(form_input_index cfg,
                             if truthy (wildcard cfg) then inp @ the (wildcard cfg) else inp)])
                   (product_repeat chars (nat len)), None))"

text \<open>
  The body of the loop over \<^verbatim>\<open>indiv_inputs_list\<close>: each entry is cut at its first colon
  (unpacking one element raises \<^verbatim>\<open>ValueError\<close>), the index is read by \<^verbatim>\<open>int\<close>, and the
  two escapes are undone in the value.
\<close>

fun parse_indiv_inputs :: "string list \<Rightarrow> py_exception + input_plan" where
  "parse_indiv_inputs [] = Inr []"
| "parse_indiv_inputs (e # es) =
     (case split_colon e of
        None \<Rightarrow> Inl ValueError
      | Some (ix, str) \<Rightarrow>
          (case py_int ix of
             None \<Rightarrow> Inl ValueError
           | Some i \<Rightarrow>
               (case parse_indiv_inputs es of
                  Inl x \<Rightarrow> Inl x
                | Inr r \<Rightarrow>
                    Inr ((i, replace_escaped CHR '';'' (replace_escaped CHR '','' str)) # r))))"

fun multi_manual_searches :: "string list \<Rightarrow> input_plan generator" where
  "multi_manual_searches [] = ([], None)"
| "multi_manual_searches (inp # inps) =
     (case parse_indiv_inputs (re_split CHR '','' inp) of
        Inl e \<Rightarrow> ([], Some e)
      | Inr indiv_search \<Rightarrow>
          (case multi_manual_searches inps of (ps, err) \<Rightarrow> (indiv_search # ps, err)))"

definition make_input_generator :: "config \<Rightarrow> input_plan generator" where
  "make_input_generator cfg =
     (if input_type cfg = ''character_iteration'' then
        character_iteration_input_generator cfg (input_minlength cfg)
      else if input_type cfg = ''fixed_strings'' \<and> input_strings cfg \<noteq> [] then
        (map (\<lambda>indiv_search. [(form_input_index cfg, indiv_search)])
             (re_split CHR '','' (input_strings cfg)), None)
      else if input_type cfg = ''multi_manual'' \<and> input_strings cfg \<noteq> [] then
        multi_manual_searches (re_split CHR '';'' (input_strings cfg))
      else ([], Some InvalidInputCombination))"

section \<open>The environment: browser control and file system\<close>

text \<open>
  The controller is an external collaborator. Its state is a type parameter \<open>'b\<close>, and the
  operations the scraper calls are the fields of a record of functions over it; the clock
  read by \<^verbatim>\<open>time.time()\<close> and the digest \<^verbatim>\<open>hashlib.sha256(...).hex()\<close> are fields too.
  The controller's \<^verbatim>\<open>back\<close> is the field \<open>go_back\<close>. Controller operations are
  taken not to raise. The read \<^verbatim>\<open>self.control.inputs[ix]\<close> and
  \<^verbatim>\<open>self.control.clickable\<close> only feed the log and are left out, as is all logging.
\<close>

record 'b control =
  button_vectors :: "'b \<Rightarrow> string list"
  form_vectors :: "'b \<Rightarrow> string list"
  link_vectors :: "'b \<Rightarrow> string list"
  input :: "nat \<Rightarrow> int \<Rightarrow> string \<Rightarrow> 'b \<Rightarrow> 'b"
  submit :: "nat \<Rightarrow> 'b \<Rightarrow> 'b"
  select_button :: "nat \<Rightarrow> bool \<Rightarrow> 'b \<Rightarrow> 'b"
  select_link :: "nat \<Rightarrow> 'b \<Rightarrow> bool \<times> 'b"
  go_back :: "'b \<Rightarrow> 'b"
  page_html :: "'b \<Rightarrow> string"
  page_url :: "'b \<Rightarrow> string"
  get_screenshot_as_png :: "'b \<Rightarrow> string"
  clock :: "'b \<Rightarrow> int"
  sha256_hex :: "string \<Rightarrow> string"

text \<open>
  The calls made on the controller that change the page are recorded, in order, in
  \<open>actions\<close>. The file system is the set of directories and the contents of the files;
  it refuses no operation.
\<close>

datatype action =
    ActInput nat int string
  | ActSubmit nat
  | ActSelectButton nat
  | ActSelectLink nat
  | ActBack

record 'b world =
  browser :: 'b
  dirs :: "string set"
  files :: "string \<Rightarrow> string option"
  actions :: "action list"

text \<open>
  How a call ends: it returns (\<open>Done\<close>), an exception leaves it (\<open>Raised\<close>), or
  \<^verbatim>\<open>sys.exit\<close> stops the process (\<open>Exited\<close>); each carries the world at that moment.
\<close>

datatype 'a result = Done 'a | Raised py_exception 'a | Exited int 'a

definition do_input :: "'b control \<Rightarrow> nat \<Rightarrow> int \<Rightarrow> string \<Rightarrow> 'b world \<Rightarrow> 'b world" where
  "do_input C ix i s w =
     w\<lparr>browser := input C ix i s (browser w), actions := actions w @ [ActInput ix i s]\<rparr>"

definition do_submit :: "'b control \<Rightarrow> nat \<Rightarrow> 'b world \<Rightarrow> 'b world" where
  "do_submit C ix w =
     w\<lparr>browser := submit C ix (browser w), actions := actions w @ [ActSubmit ix]\<rparr>"

definition do_select_button :: "'b control \<Rightarrow> nat \<Rightarrow> bool \<Rightarrow> 'b world \<Rightarrow> 'b world" where
  "do_select_button C ix iterating_form w =
     w\<lparr>browser := select_button C ix iterating_form (browser w),
       actions := actions w @ [ActSelectButton ix]\<rparr>"

definition do_select_link :: "'b control \<Rightarrow> nat \<Rightarrow> 'b world \<Rightarrow> bool \<times> 'b world" where
  "do_select_link C ix w =
     (case select_link C ix (browser w) of
        (ok, b) \<Rightarrow> (ok, w\<lparr>browser := b, actions := actions w @ [ActSelectLink ix]\<rparr>))"

definition do_back :: "'b control \<Rightarrow> 'b world \<Rightarrow> 'b world" where
  "do_back C w = w\<lparr>browser := go_back C (browser w), actions := actions w @ [ActBack]\<rparr>"

text \<open>\<^verbatim>\<open>os.path.join(a, b)\<close> on POSIX; \<^verbatim>\<open>os.path.exists\<close>, \<^verbatim>\<open>os.mkdir\<close> and writing a file.\<close>

definition path_join :: "string \<Rightarrow> string \<Rightarrow> string" where
  "path_join a b =
     (if starts_with ''/'' b then b
      else if a = [] \<or> last a = CHR ''/'' then a @ b
      else a @ ''/'' @ b)"

definition path_exists :: "'b world \<Rightarrow> string \<Rightarrow> bool" where
  "path_exists w p = (p \<in> dirs w \<or> files w p \<noteq> None)"

definition mkdir :: "string \<Rightarrow> 'b world \<Rightarrow> 'b world" where
  "mkdir p w = w\<lparr>dirs := insert p (dirs w)\<rparr>"

definition write_file :: "string \<Rightarrow> string \<Rightarrow> 'b world \<Rightarrow> 'b world" where
  "write_file p content w = w\<lparr>files := (files w)(p \<mapsto> content)\<rparr>"

text \<open>\<^verbatim>\<open>"%s" % t\<close> for an integer: its decimal digits.\<close>

function str_nat :: "nat \<Rightarrow> string" where
  "str_nat n =
     (if n < 10 then [''0123456789'' ! n]
      else str_nat (n div 10) @ [''0123456789'' ! (n mod 10)])"
  by pat_completeness auto
termination
  by (relation "measure id") auto

declare str_nat.simps [simp del]

definition str_int :: "int \<Rightarrow> string" where
  "str_int i = (if i < 0 then CHR ''-'' # str_nat (nat (- i)) else str_nat (nat i))"

section \<open>Saving screenshots and training pages\<close>

text \<open>
  \<^verbatim>\<open>save_screenshot\<close> joins \<^verbatim>\<open>self.output_data_dir\<close> with a name at once; on \<^verbatim>\<open>None\<close>,
  \<^verbatim>\<open>os.path.join\<close> raises \<^verbatim>\<open>TypeError\<close>.
\<close>

definition save_screenshot :: "'b control \<Rightarrow> config \<Rightarrow> 'b world \<Rightarrow> 'b world result" where
  "save_screenshot C cfg w =
     (let t = clock C (browser w) in
      case output_data_dir cfg of
        None \<Rightarrow> Raised TypeError w
      | Some d \<Rightarrow>
          (let screenshot_dir = path_join d ''screenshots'';
               w1 = (if \<not> path_exists w screenshot_dir then mkdir screenshot_dir w else w);
               filepath = path_join screenshot_dir (str_int t @ ''.png'')
           in Done (write_file filepath (get_screenshot_as_png C (browser w1)) w1)))"

definition classes :: "string list" where
  "classes = [''data_pages'', ''error_pages'', ''links_to_documents'',
              ''links_to_search'', ''search_pages'']"

definition save_training_page ::
  "'b control \<Rightarrow> config \<Rightarrow> string option \<Rightarrow> 'b world \<Rightarrow> 'b world result" where
  "save_training_page C cfg classname w =
     (case classname of
        None \<Rightarrow> Raised ValueError w
      | Some cn \<Rightarrow>
          (if cn \<notin> set classes then Raised ValueError w
           else if \<not> truthy (output_data_dir cfg) then Done w
           else
             (let classdir = path_join (the (output_data_dir cfg)) cn;
                  w1 = (if \<not> path_exists w classdir then mkdir classdir w else w);
                  html = page_html C (browser w1);
                  h = sha256_hex C html;
                  filepath = path_join classdir (h @ ''.html'')
              in Done (write_file filepath html w1))))"

section \<open>Following next buttons\<close>

text \<open>
  The test of line 230, \<^verbatim>\<open>self.next_match.lower() in button.lower()\<close>, and the scan of
  the buttons in order, which stops at the first match.
\<close>

definition next_matches :: "config \<Rightarrow> string \<Rightarrow> bool" where
  "next_matches cfg button = str_in (lower (next_match cfg)) (lower button)"

fun find_next_btn :: "config \<Rightarrow> string list \<Rightarrow> nat \<Rightarrow> nat option" where
  "find_next_btn cfg [] ix = None"
| "find_next_btn cfg (button # rest) ix =
     (if next_matches cfg button then Some ix else find_next_btn cfg rest (Suc ix))"

text \<open>The two saves that follow each other in the loop (lines 222-223 and 235-236).\<close>

definition save_data_page :: "'b control \<Rightarrow> config \<Rightarrow> 'b world \<Rightarrow> 'b world result" where
  "save_data_page C cfg w =
     (case save_training_page C cfg (Some ''data_pages'') w of
        Done w1 \<Rightarrow> save_screenshot C cfg w1
      | r \<Rightarrow> r)"

text \<open>
  The \<^verbatim>\<open>while True\<close> loop of \<^verbatim>\<open>keep_clicking_next_btns\<close>, with the counter \<open>depth\<close>. It
  need not end (a site where every page has a next button, with \<^verbatim>\<open>formdepth\<close> 0), so
  it is a partial function: \<open>None\<close> is a loop that runs forever. An exception leaves
  the loop and the function at once.
\<close>

partial_function (option) next_btn_loop ::
  "'b control \<Rightarrow> config \<Rightarrow> int \<Rightarrow> 'b world \<Rightarrow> (int \<times> 'b world) result option" where
  "next_btn_loop C cfg depth w =
     (if formdepth cfg \<noteq> 0 \<and> depth > formdepth cfg then Some (Done (depth, w))
      else
        (let button_data = button_vectors C (browser w) in
         case save_data_page C cfg w of
           Raised e w1 \<Rightarrow> Some (Raised e (depth, w1))
         | Exited c w1 \<Rightarrow> Some (Exited c (depth, w1))
         | Done w1 \<Rightarrow>
             (case find_next_btn cfg button_data 0 of
                None \<Rightarrow> Some (Done (depth, w1))
              | Some ix \<Rightarrow>
                  (case save_data_page C cfg (do_select_button C ix True w1) of
                     Raised e w2 \<Rightarrow> Some (Raised e (depth + 1, w2))
                   | Exited c w2 \<Rightarrow> Some (Exited c (depth + 1, w2))
                   | Done w2 \<Rightarrow> next_btn_loop C cfg (depth + 1) w2))))"


primrec back_times :: "'b control \<Rightarrow> nat \<Rightarrow> 'b world \<Rightarrow> 'b world" where
  "back_times C 0 w = w"
| "back_times C (Suc n) w = back_times C n (do_back C w)"

text \<open>
  The parameter \<^verbatim>\<open>maxdepth\<close> of \<^verbatim>\<open>keep_clicking_next_btns\<close> is not read by its body: the
  loop tests \<^verbatim>\<open>self.formdepth\<close>.
\<close>

definition keep_clicking_next_btns ::
  "'b control \<Rightarrow> config \<Rightarrow> int \<Rightarrow> 'b world \<Rightarrow> 'b world result option" where
  "keep_clicking_next_btns C cfg maxdepth_arg w =
     (case next_btn_loop C cfg 0 w of
        None \<Rightarrow> None
      | Some (Raised e (depth, w1)) \<Rightarrow> Some (Raised e w1)
      | Some (Exited c (depth, w1)) \<Rightarrow> Some (Exited c w1)
      | Some (Done (depth, w1)) \<Rightarrow> Some (Done (back_times C (nat depth) w1)))"

section \<open>The crawl\<close>

text \<open>The loop over the inputs of one plan, and the loop over the plans (lines 284-298).\<close>

fun fill_inputs :: "'b control \<Rightarrow> nat \<Rightarrow> input_plan \<Rightarrow> 'b world \<Rightarrow> 'b world" where
  "fill_inputs C ix [] w = w"
| "fill_inputs C ix ((input_index, input_string) # rest) w =
     fill_inputs C ix rest (do_input C ix input_index input_string w)"

fun run_input_phases ::
  "'b control \<Rightarrow> config \<Rightarrow> nat \<Rightarrow> input_plan list \<Rightarrow> bool \<Rightarrow> 'b world
     \<Rightarrow> (bool \<times> 'b world) result option" where
  "run_input_phases C cfg ix [] scraped w = Some (Done (scraped, w))"
| "run_input_phases C cfg ix (input_phase # rest) scraped w =
     (case save_screenshot C cfg (fill_inputs C ix input_phase w) of
        Raised e w1 \<Rightarrow> Some (Raised e (scraped, w1))
      | Exited c w1 \<Rightarrow> Some (Exited c (scraped, w1))
      | Done w1 \<Rightarrow>
          (case save_screenshot C cfg (do_submit C ix w1) of
             Raised e w2 \<Rightarrow> Some (Raised e (scraped, w2))
           | Exited c w2 \<Rightarrow> Some (Exited c (scraped, w2))
           | Done w2 \<Rightarrow>
               (case keep_clicking_next_btns C cfg 3 w2 of
                  None \<Rightarrow> None
                | Some (Raised e w3) \<Rightarrow> Some (Raised e (scraped, w3))
                | Some (Exited c w3) \<Rightarrow> Some (Exited c (scraped, w3))
                | Some (Done w3) \<Rightarrow> run_input_phases C cfg ix rest True (do_back C w3))))"


definition form_matches :: "config \<Rightarrow> string \<Rightarrow> bool" where
  "form_matches cfg form_data = str_in (lower (form_match cfg)) (lower form_data)"

text \<open>
  The loop over the forms of the page (lines 261-306). The generator is read by the loop
  over the plans; if it ends by raising, the exception leaves \<^verbatim>\<open>run\<close> after the plans
  yielded before it have been tried.
\<close>

fun run_forms ::
  "'b control \<Rightarrow> config \<Rightarrow> string list \<Rightarrow> nat \<Rightarrow> bool \<Rightarrow> 'b world
     \<Rightarrow> (bool \<times> 'b world) result option" where
  "run_forms C cfg [] ix scraped w = Some (Done (scraped, w))"
| "run_forms C cfg (form_data # rest) ix scraped w =
     (if \<not> form_matches cfg form_data then run_forms C cfg rest (Suc ix) scraped w
      else
        (case save_training_page C cfg (Some ''search_pages'') w of
           Raised e w1 \<Rightarrow> Some (Raised e (scraped, w1))
         | Exited c w1 \<Rightarrow> Some (Exited c (scraped, w1))
         | Done w1 \<Rightarrow>
             (case save_screenshot C cfg w1 of
                Raised e w2 \<Rightarrow> Some (Raised e (scraped, w2))
              | Exited c w2 \<Rightarrow> Some (Exited c (scraped, w2))
              | Done w2 \<Rightarrow>
                  (case make_input_generator cfg of
                     (input_gen, ended) \<Rightarrow>
                       (case run_input_phases C cfg ix input_gen scraped w2 of
                          None \<Rightarrow> None
                        | Some (Raised e r) \<Rightarrow> Some (Raised e r)
                        | Some (Exited c r) \<Rightarrow> Some (Exited c r)
                        | Some (Done (scraped1, w3)) \<Rightarrow>
                            (case ended of
                               Some e \<Rightarrow> Some (Raised e (scraped1, w3))
                             | None \<Rightarrow>
                                 (if scraped1 then Some (Exited 0 (scraped1, w3))
                                  else run_forms C cfg rest (Suc ix) scraped1 w3)))))))"

text \<open>
  The sort key of line 314, and \<^verbatim>\<open>list.sort(key=..., reverse=True)\<close>: a stable sort that
  puts the elements whose key is true first.
\<close>

definition link_key :: "config \<Rightarrow> nat \<times> string \<Rightarrow> bool" where
  "link_key cfg r = str_in (link_priority cfg) (lower (snd r))"

definition sort_reverse :: "('a \<Rightarrow> bool) \<Rightarrow> 'a list \<Rightarrow> 'a list" where
  "sort_reverse key xs = sort_key (\<lambda>r. \<not> key r) xs"

definition sorted_links :: "config \<Rightarrow> string list \<Rightarrow> (nat \<times> string) list" where
  "sorted_links cfg link_vecs =
     sort_reverse (link_key cfg) (zip [0..<length link_vecs] link_vecs)"

text \<open>
  \<^verbatim>\<open>run\<close> and its loop over the sorted links. A link is clicked only below
  \<^verbatim>\<open>maxdepth\<close>, which bounds the recursion.
\<close>

function run :: "'b control \<Rightarrow> config \<Rightarrow> int \<Rightarrow> 'b world \<Rightarrow> 'b world result option"
  and run_links ::
    "'b control \<Rightarrow> config \<Rightarrow> int \<Rightarrow> (nat \<times> string) list \<Rightarrow> 'b world \<Rightarrow> 'b world result option"
where
  "run C cfg depth w =
     (if depth > maxdepth cfg then Some (Done (do_back C w))
      else
        (case save_screenshot C cfg w of
           Raised e w1 \<Rightarrow> Some (Raised e w1)
         | Exited c w1 \<Rightarrow> Some (Exited c w1)
         | Done w1 \<Rightarrow>
             (case run_forms C cfg (form_vectors C (browser w1)) 0 False w1 of
                None \<Rightarrow> None
              | Some (Raised e (scraped, w2)) \<Rightarrow> Some (Raised e w2)
              | Some (Exited c (scraped, w2)) \<Rightarrow> Some (Exited c w2)
              | Some (Done (scraped, w2)) \<Rightarrow>
                  (case run_links C cfg depth
                          (sorted_links cfg (link_vectors C (browser w2))) w2 of
                     Some (Done w3) \<Rightarrow> Some (Done (do_back C w3))
                   | r \<Rightarrow> r))))"
| "run_links C cfg depth [] w = Some (Done w)"
| "run_links C cfg depth (l # rest) w =
     (if depth = maxdepth cfg then Some (Done w)
      else
        (case do_select_link C (fst l) w of
           (clicked, w1) \<Rightarrow>
             (if clicked then
                (case run C cfg (depth + 1) w1 of
                   Some (Done w2) \<Rightarrow> run_links C cfg depth rest w2
                 | r \<Rightarrow> r)
              else run_links C cfg depth rest w1)))"
  by pat_completeness auto
termination
  by (relation "inv_image (less_than <*lex*> less_than)
       (\<lambda>x. case x of
          Inl (C, cfg, depth, w) \<Rightarrow>
            (if depth > maxdepth cfg then 0 else 2 * nat (maxdepth cfg - depth) + 2, 0)
        | Inr (C, cfg, depth, ls, w) \<Rightarrow>
            (if depth > maxdepth cfg then 1 else 2 * nat (maxdepth cfg - depth) + 1, length ls))")
     auto


declare run.simps [simp del] run_links.simps [simp del]


section \<open>Notions used to state the properties\<close>

text \<open>
  A page has a next control when the text of one of its buttons contains \<^verbatim>\<open>next_match\<close>,
  both lowercased. \<open>page_after\<close> is the page reached from \<open>b\<close> by \<open>n\<close> hops, each a click
  on the button the scan finds; \<open>next_clicks\<close> lists the indices clicked.
  \<open>first_next_at\<close> says that an index is the first matching button of a list.
\<close>

definition has_next :: "'b control \<Rightarrow> config \<Rightarrow> 'b \<Rightarrow> bool" where
  "has_next C cfg b =
     (\<exists>button\<in>set (button_vectors C b). str_in (lower (next_match cfg)) (lower button))"

fun page_after :: "'b control \<Rightarrow> config \<Rightarrow> nat \<Rightarrow> 'b \<Rightarrow> 'b" where
  "page_after C cfg 0 b = b"
| "page_after C cfg (Suc n) b =
     (case find_next_btn cfg (button_vectors C b) 0 of
        None \<Rightarrow> b
      | Some ix \<Rightarrow> page_after C cfg n (select_button C ix True b))"

fun next_clicks :: "'b control \<Rightarrow> config \<Rightarrow> nat \<Rightarrow> 'b \<Rightarrow> nat list" where
  "next_clicks C cfg 0 b = []"
| "next_clicks C cfg (Suc n) b =
     (case find_next_btn cfg (button_vectors C b) 0 of
        None \<Rightarrow> []
      | Some ix \<Rightarrow> ix # next_clicks C cfg n (select_button C ix True b))"


text \<open>
  The order of an alphabet is the order in which its characters are written:
  \<open>position\<close> is the index of the first occurrence of a character. \<open>input_chars\<close> and
  \<open>input_suffix\<close> are the alphabet and the suffix \<^verbatim>\<open>character_iteration_input_generator\<close>
  works with.
\<close>

fun position :: "'a list \<Rightarrow> 'a \<Rightarrow> nat" where
  "position [] a = 0"
| "position (x # xs) a = (if x = a then 0 else Suc (position xs a))"

definition alphabet_order :: "'a list \<Rightarrow> ('a \<times> 'a) set" where
  "alphabet_order A = {(a, b). position A a < position A b}"

definition input_chars :: "config \<Rightarrow> string" where
  "input_chars cfg =
     (if truthy (form_input_range cfg) then the (form_input_range cfg) else ascii_lowercase)"

definition input_suffix :: "config \<Rightarrow> string" where
  "input_suffix cfg = (if truthy (wildcard cfg) then the (wildcard cfg) else [])"

text \<open>
  The world a call ends in, and the test that a call clicked no link: its actions extend
  those before it by actions none of which is a \<^verbatim>\<open>select_link\<close>.
\<close>

definition world_of :: "'a result \<Rightarrow> 'a" where
  "world_of r = (case r of Done w \<Rightarrow> w | Raised e w \<Rightarrow> w | Exited c w \<Rightarrow> w)"



section \<open>A small site for concrete runs\<close>

text \<open>
  The browser state is the number of the page shown. Page 0 has two forms, the second of
  which matches the default \<^verbatim>\<open>form_match\<close>, and three links; submitting leads to page
  1; pages 1 to 5 each have a next button as their second control, page 6 has none. Link
  \<open>ix\<close> leads to page \<open>10 + ix\<close>, which has no form, button or link.
\<close>

definition demo_control :: "nat control" where
  "demo_control =
     \<lparr> button_vectors = (\<lambda>p. if 1 \<le> p \<and> p \<le> 5 then [''Previous'', ''Next Page'']
                              else if p = 6 then [''Previous''] else []),
       form_vectors = (\<lambda>p. if p = 0 then [''Email'', ''First Name''] else []),
       link_vectors = (\<lambda>p. if p = 0 then [''About'', ''Search results'', ''Home''] else []),
       input = (\<lambda>ix i s p. p),
       submit = (\<lambda>ix p. 1),
       select_button = (\<lambda>ix iterating_form p. p + 1),
       select_link = (\<lambda>ix p. (True, 10 + ix)),
       go_back = (\<lambda>p. if 10 \<le> p then 0 else p - 1),
       page_html = (\<lambda>p. ''<html>page</html>''),
       page_url = (\<lambda>p. ''http://localhost/''),
       get_screenshot_as_png = (\<lambda>p. ''PNG''),
       clock = (\<lambda>p. 1700000000),
       sha256_hex = (\<lambda>s. ''0f'') \<rparr>"

definition demo_world :: "nat world" where
  "demo_world = \<lparr> browser = 0, dirs = {}, files = (\<lambda>p. None), actions = [] \<rparr>"

text \<open>
  The configuration of the concrete runs: the defaults, with an output directory and two
  fixed input strings.
\<close>

definition demo_config :: config where
  "demo_config =
     default_config\<lparr>output_data_dir := Some ''out'', input_type := ''fixed_strings'',
       input_strings := ''ann,bob''\<rparr>"

text \<open>
  What one plan makes the crawl do on this site: its inputs, the submit, five clicks on the
  next button, five steps back from them and one more back to the form.
\<close>

definition plan_actions :: "nat \<Rightarrow> input_plan \<Rightarrow> action list" where
  "plan_actions ix plan =
     map (\<lambda>(i, s). ActInput ix i s) plan @ [ActSubmit ix]
     @ replicate 5 (ActSelectButton 1) @ replicate 6 ActBack"


definition final_world :: "'a result option \<Rightarrow> 'a option" where
  "final_world r =
     (case r of
        None \<Rightarrow> None
      | Some (Done w) \<Rightarrow> Some w
      | Some (Raised e w) \<Rightarrow> Some w
      | Some (Exited c w) \<Rightarrow> Some w)"

definition final_actions :: "'b world result option \<Rightarrow> action list" where
  "final_actions r = (case final_world r of None \<Rightarrow> [] | Some w \<Rightarrow> actions w)"

section \<open>Properties of the input plan generators\<close>

text \<open>
  C2. In \<^verbatim>\<open>fixed_strings\<close> mode the input \<^verbatim>\<open>a,b\,c,d\<close> yields three plans, each one
  assignment to \<^verbatim>\<open>form_input_index\<close>, in the order of the text. The second value is
  \<^verbatim>\<open>b\,c\<close>: the string is cut at the commas that no backslash precedes, and the backslash
  stays in the value. (The \<^verbatim>\<open>multi_manual\<close> branch removes it with \<^verbatim>\<open>replace\<close>; this
  branch does not.)
\<close>

theorem fixed_strings_keeps_backslash:
  "make_input_generator
     (default_config\<lparr>input_type := ''fixed_strings'', input_strings := ''a,b'' @ [bs] @ '',c,d''\<rparr>)
   = ([[(0, ''a'')], [(0, ''b'' @ [bs] @ '',c'')], [(0, ''d'')]], None)
   \<and> ''b'' @ [bs] @ '',c'' \<noteq> ''b,c''"
  by (simp add: make_input_generator_def default_config_def re_split_def bs_def)

text \<open>
  C9. Configuration errors are raised where the configuration is used. The generator
  raises, before it yields any plan, when \<^verbatim>\<open>fixed_strings\<close> or \<^verbatim>\<open>multi_manual\<close> is
  selected with an empty \<^verbatim>\<open>input_strings\<close> and when \<^verbatim>\<open>input_type\<close> is none of the three
  known names; \<^verbatim>\<open>save_training_page\<close> raises \<^verbatim>\<open>ValueError\<close> for every class name outside
  the five classes, whatever the output directory is.
\<close>

theorem configuration_errors_raise:
  "((input_type cfg = ''fixed_strings'' \<or> input_type cfg = ''multi_manual'')
      \<and> input_strings cfg = []
    \<or> input_type cfg \<notin> {''character_iteration'', ''fixed_strings'', ''multi_manual''}
    \<longrightarrow> make_input_generator cfg = ([], Some InvalidInputCombination))
   \<and> (classname \<notin> Some ` set classes
        \<longrightarrow> save_training_page C cfg classname w = Raised ValueError w)"
  by (auto simp: make_input_generator_def save_training_page_def split: option.splits)

theorem configuration_errors_raise_witness:
  "make_input_generator (default_config\<lparr>input_type := ''fixed_strings''\<rparr>)
     = ([], Some InvalidInputCombination)
   \<and> make_input_generator (default_config\<lparr>input_type := ''multi_manual''\<rparr>)
     = ([], Some InvalidInputCombination)
   \<and> make_input_generator (default_config\<lparr>input_type := ''random''\<rparr>)
     = ([], Some InvalidInputCombination)
   \<and> save_training_page demo_control default_config (Some ''results'') demo_world
     = Raised ValueError demo_world
   \<and> save_training_page demo_control (default_config\<lparr>output_data_dir := Some ''out''\<rparr>)
        None demo_world
     = Raised ValueError demo_world"
  using
    configuration_errors_raise
      [of "default_config\<lparr>input_type := ''fixed_strings''\<rparr>" "Some ''results''"
          demo_control demo_world]
    configuration_errors_raise
      [of "default_config\<lparr>input_type := ''multi_manual''\<rparr>" None
          demo_control demo_world]
    configuration_errors_raise
      [of "default_config\<lparr>input_type := ''random''\<rparr>" "Some ''results''"
          demo_control demo_world]
    configuration_errors_raise
      [of "default_config\<lparr>output_data_dir := Some ''out''\<rparr>" None demo_control demo_world]
  by (simp add: default_config_def classes_def image_iff save_training_page_def)

section \<open>Properties of the writers\<close>

text \<open>
  C3. With \<^verbatim>\<open>output_data_dir\<close> unset (\<^verbatim>\<open>None\<close>, the constructor's default),
  \<^verbatim>\<open>save_training_page\<close> returns without touching anything for each of the five classes,
  but \<^verbatim>\<open>save_screenshot\<close> raises \<^verbatim>\<open>TypeError\<close>: it has no test of the directory.
  \<^verbatim>\<open>run\<close>, which begins with a screenshot, then raises at once.
\<close>

theorem save_screenshot_unset_raises:
  "save_screenshot C (cfg\<lparr>output_data_dir := None\<rparr>) w = Raised TypeError w
   \<and> save_training_page C (cfg\<lparr>output_data_dir := None\<rparr>) (Some ''data_pages'') w = Done w
   \<and> run C (default_config\<lparr>output_data_dir := None\<rparr>) 0 w = Some (Raised TypeError w)"
  by (simp add: save_screenshot_def save_training_page_def classes_def truthy_def run.simps
      default_config_def)

section \<open>Properties of the matching heuristics\<close>
















section \<open>Properties of the pagination follower\<close>

lemma save_screenshot_ok:
  "output_data_dir cfg = Some d \<Longrightarrow>
   \<exists>w1. save_screenshot C cfg w = Done w1 \<and> browser w1 = browser w \<and> actions w1 = actions w"
  by (simp add: save_screenshot_def Let_def write_file_def mkdir_def)

lemma save_training_page_ok:
  "cn \<in> set classes \<Longrightarrow>
   \<exists>w1. save_training_page C cfg (Some cn) w = Done w1 \<and> browser w1 = browser w
        \<and> actions w1 = actions w"
  by (simp add: save_training_page_def Let_def write_file_def mkdir_def)

lemma save_data_page_ok:
  assumes "output_data_dir cfg = Some d"
  shows "\<exists>w1. save_data_page C cfg w = Done w1 \<and> browser w1 = browser w \<and> actions w1 = actions w"
proof -
  have "''data_pages'' \<in> set classes" by (simp add: classes_def)
  then obtain w0 where a: "save_training_page C cfg (Some ''data_pages'') w = Done w0"
    "browser w0 = browser w" "actions w0 = actions w"
    using save_training_page_ok by blast
  obtain w1 where b: "save_screenshot C cfg w0 = Done w1" "browser w1 = browser w0"
    "actions w1 = actions w0"
    using save_screenshot_ok [OF assms] by blast
  from a b show ?thesis by (simp add: save_data_page_def)
qed

lemma find_next_btn_None:
  "(find_next_btn cfg buttons k = None) = (\<forall>b\<in>set buttons. \<not> next_matches cfg b)"
  by (induction buttons arbitrary: k) auto


lemma has_next_find: "has_next C cfg b = (find_next_btn cfg (button_vectors C b) 0 \<noteq> None)"
  by (simp add: find_next_btn_None has_next_def next_matches_def)


lemma back_times_actions:
  "actions (back_times C n w) = actions w @ replicate n ActBack"
proof (induction n arbitrary: w)
  case 0
  show ?case by simp
next
  case (Suc n)
  have "actions (back_times C (Suc n) w) = actions (do_back C w) @ replicate n ActBack"
    using Suc.IH by simp
  also have "\<dots> = actions w @ ActBack # replicate n ActBack" by (simp add: do_back_def)
  finally show ?case by simp
qed

lemma back_times_browser:
  "browser (back_times C n w) = (go_back C ^^ n) (browser w)"
proof (induction n arbitrary: w)
  case 0
  show ?case by simp
next
  case (Suc n)
  have "browser (back_times C (Suc n) w) = (go_back C ^^ n) (go_back C (browser w))"
    using Suc.IH by (simp add: do_back_def)
  then show ?case by (simp add: funpow_swap1)
qed

lemma next_btn_loop_chain:
  assumes out: "output_data_dir cfg = Some d"
    and more: "\<forall>i<N. has_next C cfg (page_after C cfg i (browser w))"
    and last: "\<not> has_next C cfg (page_after C cfg N (browser w))"
    and bound: "formdepth cfg = 0 \<or> depth + int N \<le> formdepth cfg"
  shows "\<exists>w'. next_btn_loop C cfg depth w = Some (Done (depth + int N, w'))
           \<and> browser w' = page_after C cfg N (browser w)
           \<and> actions w' = actions w @ map ActSelectButton (next_clicks C cfg N (browser w))"
  using more last bound
proof (induction N arbitrary: depth w)
  case 0
  from "0.prems"(3) have guard: "\<not> (formdepth cfg \<noteq> 0 \<and> depth > formdepth cfg)" by auto
  obtain w1 where s1: "save_data_page C cfg w = Done w1" "browser w1 = browser w"
    "actions w1 = actions w"
    using save_data_page_ok [OF out] by blast
  from "0.prems"(2) have none: "find_next_btn cfg (button_vectors C (browser w)) 0 = None"
    by (simp add: has_next_find)
  have "next_btn_loop C cfg depth w = Some (Done (depth, w1))"
    by (subst next_btn_loop.simps) (simp add: guard s1 none)
  with s1 show ?case by simp
next
  case (Suc N)
  from Suc.prems(3) have guard: "\<not> (formdepth cfg \<noteq> 0 \<and> depth > formdepth cfg)" by auto
  obtain w1 where s1: "save_data_page C cfg w = Done w1" "browser w1 = browser w"
    "actions w1 = actions w"
    using save_data_page_ok [OF out] by blast
  from Suc.prems(1) have "has_next C cfg (page_after C cfg 0 (browser w))" by blast
  then obtain ix where some: "find_next_btn cfg (button_vectors C (browser w)) 0 = Some ix"
    by (auto simp: has_next_find)
  obtain w2 where s2: "save_data_page C cfg (do_select_button C ix True w1) = Done w2"
    "browser w2 = browser (do_select_button C ix True w1)"
    "actions w2 = actions (do_select_button C ix True w1)"
    using save_data_page_ok [OF out] by blast
  have b2: "browser w2 = select_button C ix True (browser w)"
    using s2(2) s1(2) by (simp add: do_select_button_def)
  have a2: "actions w2 = actions w @ [ActSelectButton ix]"
    using s2(3) s1(3) by (simp add: do_select_button_def)
  have step: "page_after C cfg (Suc i) (browser w) = page_after C cfg i (browser w2)" for i
    by (simp add: some b2)
  have more': "\<forall>i<N. has_next C cfg (page_after C cfg i (browser w2))"
  proof (intro allI impI)
    fix i assume "i < N"
    then have "Suc i < Suc N" by simp
    with Suc.prems(1) have "has_next C cfg (page_after C cfg (Suc i) (browser w))" by blast
    then show "has_next C cfg (page_after C cfg i (browser w2))" by (simp only: step)
  qed
  have last': "\<not> has_next C cfg (page_after C cfg N (browser w2))"
    using Suc.prems(2) unfolding step by assumption
  have bound': "formdepth cfg = 0 \<or> (depth + 1) + int N \<le> formdepth cfg"
    using Suc.prems(3) by auto
  obtain w' where r: "next_btn_loop C cfg (depth + 1) w2 = Some (Done (depth + 1 + int N, w'))"
    "browser w' = page_after C cfg N (browser w2)"
    "actions w' = actions w2 @ map ActSelectButton (next_clicks C cfg N (browser w2))"
    using Suc.IH [OF more' last' bound'] by blast
  have "next_btn_loop C cfg depth w = next_btn_loop C cfg (depth + 1) w2"
    by (subst next_btn_loop.simps) (simp add: guard s1 some s2)
  with r have "next_btn_loop C cfg depth w = Some (Done (depth + int (Suc N), w'))"
    by (simp add: add.assoc add.commute)
  moreover have "browser w' = page_after C cfg (Suc N) (browser w)"
    using r(2) by (simp only: step)
  moreover have "actions w' = actions w @ map ActSelectButton (next_clicks C cfg (Suc N) (browser w))"
    using r(3) a2 by (simp add: some b2)
  ultimately show ?case by blast
qed


lemma demo_next_matches:
  assumes "next_match cfg = ''next page''"
  shows "\<not> next_matches cfg ''Previous''" "next_matches cfg ''Next Page''"
  using assms
  by (simp_all add: next_matches_def lower_def lower_char_def ascii_uppercase_def
      ascii_lowercase_def)

lemma demo_find_next:
  assumes "next_match cfg = ''next page''"
  shows "find_next_btn cfg (button_vectors demo_control p) 0
         = (if 1 \<le> p \<and> p \<le> 5 then Some 1 else None)"
  using demo_next_matches [OF assms] by (simp add: demo_control_def)

lemma demo_has_next:
  assumes "next_match cfg = ''next page''"
  shows "has_next demo_control cfg p = (1 \<le> p \<and> p \<le> 5)"
  by (simp add: has_next_find demo_find_next [OF assms])

lemma demo_page_after:
  assumes "next_match cfg = ''next page''"
  shows "1 \<le> p \<Longrightarrow> p + i \<le> 6 \<Longrightarrow> page_after demo_control cfg i p = p + i"
proof (induction i arbitrary: p)
  case 0
  show ?case by simp
next
  case (Suc i)
  then have "find_next_btn cfg (button_vectors demo_control p) 0 = Some 1"
    by (simp add: demo_find_next [OF assms])
  moreover have "select_button demo_control 1 True p = Suc p" by (simp add: demo_control_def)
  ultimately have "page_after demo_control cfg (Suc i) p = page_after demo_control cfg i (Suc p)"
    by simp
  also have "\<dots> = Suc p + i" using Suc.prems by (intro Suc.IH) simp_all
  finally show ?case by simp
qed




section \<open>Properties of the crawl\<close>


lemma run_forms_skip:
  "\<forall>f\<in>set pre. \<not> form_matches cfg f \<Longrightarrow>
   run_forms C cfg (pre @ rest) ix scraped w = run_forms C cfg rest (ix + length pre) scraped w"
  by (induction pre arbitrary: ix) simp_all


lemma run_input_phases_scraped:
  "run_input_phases C cfg ix plans scraped w = Some (Done (scraped', w')) \<Longrightarrow>
   scraped' = (scraped \<or> plans \<noteq> [])"
proof (induction plans arbitrary: scraped w)
  case Nil
  then show ?case by simp
next
  case (Cons p ps)
  from Cons.prems obtain w3 where
    "run_input_phases C cfg ix ps True w3 = Some (Done (scraped', w'))"
    by (auto split: result.splits option.splits)
  then have "scraped' = (True \<or> ps \<noteq> [])" by (rule Cons.IH)
  then show ?case by simp
qed

























lemma run_exits_after_plans:
  assumes "depth \<le> maxdepth cfg"
    and "save_screenshot C cfg w = Done w1"
    and "form_vectors C (browser w1) = pre @ form_data # post"
    and "\<forall>f\<in>set pre. \<not> form_matches cfg f"
    and "form_matches cfg form_data"
    and "save_training_page C cfg (Some ''search_pages'') w1 = Done w2"
    and "save_screenshot C cfg w2 = Done w3"
    and "make_input_generator cfg = (plans, None)"
    and "plans \<noteq> []"
    and "run_input_phases C cfg (length pre) plans False w3 = Some (Done (scraped, w4))"
  shows "run C cfg depth w = Some (Exited 0 w4)"
proof -
  from assms(9,10) have sc: "scraped" using run_input_phases_scraped by fastforce
  have "run_forms C cfg (form_vectors C (browser w1)) 0 False w1
        = run_forms C cfg (form_data # post) (length pre) False w1"
    using run_forms_skip [OF assms(4), of C "form_data # post" 0 False w1] assms(3) by simp
  also have "\<dots> = Some (Exited 0 (scraped, w4))"
    using assms(5,6,7,8,10) sc by simp
  finally have "run_forms C cfg (form_vectors C (browser w1)) 0 False w1
                = Some (Exited 0 (scraped, w4))" .
  with assms(1,2) show ?thesis by (simp add: run.simps)
qed

text \<open>
  C7. When the first form whose text contains \<^verbatim>\<open>form_match\<close> has been found below or at
  \<^verbatim>\<open>maxdepth\<close>, the generator has yielded at least one plan and ended without raising,
  and the loop over its plans has come to its end, \<^verbatim>\<open>run\<close> stops the process with exit
  status 0. The world it stops in is the one the loop over the plans ended in: no other
  form is looked at and no link is followed afterwards.
\<close>

theorem scrape_success_exits:
  assumes "depth \<le> maxdepth cfg"
    and "save_screenshot C cfg w = Done w1"
    and "form_vectors C (browser w1) = pre @ form_data # post"
    and "\<forall>f\<in>set pre. \<not> form_matches cfg f"
    and "form_matches cfg form_data"
    and "save_training_page C cfg (Some ''search_pages'') w1 = Done w2"
    and "save_screenshot C cfg w2 = Done w3"
    and "make_input_generator cfg = (plans, None)"
    and "plans \<noteq> []"
    and "run_input_phases C cfg (length pre) plans False w3 = Some (Done (scraped, w4))"
  shows "run C cfg depth w = Some (Exited 0 w4)"
  using assms by (rule run_exits_after_plans)


section \<open>The crawl on the small site\<close>

lemma fill_inputs_actions:
  "actions (fill_inputs C ix plan w) = actions w @ map (\<lambda>(i, s). ActInput ix i s) plan"
proof (induction plan arbitrary: w)
  case Nil
  show ?case by simp
next
  case (Cons p ps)
  obtain i s where p: "p = (i, s)" by (cases p)
  show ?case unfolding p by (simp add: Cons.IH do_input_def)
qed

lemma demo_fill_inputs_browser:
  "browser (fill_inputs demo_control ix plan w) = browser w"
proof (induction plan arbitrary: w)
  case Nil
  show ?case by simp
next
  case (Cons p ps)
  obtain i s where p: "p = (i, s)" by (cases p)
  have "input demo_control ix i s (browser w) = browser w" by (simp add: demo_control_def)
  then show ?case unfolding p by (simp add: Cons.IH do_input_def)
qed

lemma demo_next_clicks:
  assumes "next_match cfg = ''next page''"
  shows "1 \<le> p \<Longrightarrow> p + i \<le> 6 \<Longrightarrow> next_clicks demo_control cfg i p = replicate i 1"
proof (induction i arbitrary: p)
  case 0
  show ?case by simp
next
  case (Suc i)
  then have "find_next_btn cfg (button_vectors demo_control p) 0 = Some 1"
    by (simp add: demo_find_next [OF assms])
  moreover have "select_button demo_control 1 True p = Suc p" by (simp add: demo_control_def)
  ultimately have "next_clicks demo_control cfg (Suc i) p
                   = 1 # next_clicks demo_control cfg i (Suc p)"
    by simp
  also have "next_clicks demo_control cfg i (Suc p) = replicate i 1"
    using Suc.prems by (intro Suc.IH) simp_all
  finally show ?case by simp
qed

lemma demo_keep_clicking:
  assumes nm: "next_match cfg = ''next page''"
    and out: "output_data_dir cfg = Some d"
    and bound: "formdepth cfg = 0 \<or> 5 \<le> formdepth cfg"
    and page: "browser w = 1"
  shows "\<exists>w'. keep_clicking_next_btns demo_control cfg m w = Some (Done w')
           \<and> browser w' = 1
           \<and> actions w' = actions w @ replicate 5 (ActSelectButton 1) @ replicate 5 ActBack"
proof -
  have more: "\<forall>i<5. has_next demo_control cfg (page_after demo_control cfg i (browser w))"
    using page by (simp add: demo_page_after [OF nm] demo_has_next [OF nm])
  have last: "\<not> has_next demo_control cfg (page_after demo_control cfg 5 (browser w))"
    using page by (simp add: demo_page_after [OF nm] demo_has_next [OF nm])
  from bound have b: "formdepth cfg = 0 \<or> 0 + int 5 \<le> formdepth cfg" by simp
  obtain w1 where l: "next_btn_loop demo_control cfg 0 w = Some (Done (0 + int 5, w1))"
    "browser w1 = page_after demo_control cfg 5 (browser w)"
    "actions w1 = actions w @ map ActSelectButton (next_clicks demo_control cfg 5 (browser w))"
    using next_btn_loop_chain [OF out more last b] by blast
  have k: "keep_clicking_next_btns demo_control cfg m w = Some (Done (back_times demo_control 5 w1))"
    using l(1) by (simp add: keep_clicking_next_btns_def)
  have bk: "(go_back demo_control ^^ 5) 6 = 1"
    by (simp add: demo_control_def numeral_eq_Suc)
  have "browser (back_times demo_control 5 w1) = 1"
    using l(2) page bk by (simp add: back_times_browser demo_page_after [OF nm])
  moreover have "actions (back_times demo_control 5 w1)
                 = actions w @ replicate 5 (ActSelectButton 1) @ replicate 5 ActBack"
    using l(3) page by (simp add: back_times_actions demo_next_clicks [OF nm])
  ultimately show ?thesis using k by blast
qed


lemma demo_input_phases:
  assumes nm: "next_match cfg = ''next page''"
    and out: "output_data_dir cfg = Some d"
    and bound: "formdepth cfg = 0 \<or> 5 \<le> formdepth cfg"
  shows "\<exists>w'. run_input_phases demo_control cfg ix plans scraped w
               = Some (Done (scraped \<or> plans \<noteq> [], w'))
           \<and> (plans \<noteq> [] \<longrightarrow> browser w' = 0)
           \<and> actions w' = actions w @ concat (map (plan_actions ix) plans)"
proof (induction plans arbitrary: scraped w)
  case Nil
  show ?case by simp
next
  case (Cons plan rest)
  let ?w0 = "fill_inputs demo_control ix plan w"
  obtain w1 where s1: "save_screenshot demo_control cfg ?w0 = Done w1"
    "browser w1 = browser ?w0" "actions w1 = actions ?w0"
    using save_screenshot_ok [OF out] by blast
  let ?w1s = "do_submit demo_control ix w1"
  obtain w2 where s2: "save_screenshot demo_control cfg ?w1s = Done w2"
    "browser w2 = browser ?w1s" "actions w2 = actions ?w1s"
    using save_screenshot_ok [OF out] by blast
  have b2: "browser w2 = 1" using s2(2) by (simp add: do_submit_def demo_control_def)
  have a2: "actions w2 = actions w @ map (\<lambda>(i, s). ActInput ix i s) plan @ [ActSubmit ix]"
    using s2(3) s1(3) by (simp add: do_submit_def fill_inputs_actions)
  obtain w3 where k: "keep_clicking_next_btns demo_control cfg 3 w2 = Some (Done w3)"
    "browser w3 = 1"
    "actions w3 = actions w2 @ replicate 5 (ActSelectButton 1) @ replicate 5 ActBack"
    using demo_keep_clicking [OF nm out bound b2] by blast
  let ?w4 = "do_back demo_control w3"
  have b4: "browser ?w4 = 0" using k(2) by (simp add: do_back_def demo_control_def)
  have six: "replicate 6 ActBack = replicate 5 ActBack @ [ActBack]"
    by (simp add: numeral_eq_Suc)
  have a4: "actions ?w4 = actions w @ plan_actions ix plan"
    using k(3) a2 by (simp add: do_back_def plan_actions_def six)
  obtain w' where r: "run_input_phases demo_control cfg ix rest True ?w4
                        = Some (Done (True \<or> rest \<noteq> [], w'))"
    "rest \<noteq> [] \<longrightarrow> browser w' = 0"
    "actions w' = actions ?w4 @ concat (map (plan_actions ix) rest)"
    using Cons.IH by blast
  have "run_input_phases demo_control cfg ix (plan # rest) scraped w = Some (Done (True, w'))"
    using s1(1) s2(1) k(1) r(1) by simp
  moreover have "browser w' = 0"
  proof (cases rest)
    case Nil
    with r(1) b4 show ?thesis by simp
  next
    case (Cons x xs)
    with r(2) show ?thesis by simp
  qed
  moreover have "actions w' = actions w @ concat (map (plan_actions ix) (plan # rest))"
    using r(3) a4 by simp
  ultimately show ?case by simp
qed

lemma demo_forms:
  assumes "form_match cfg = ''first name''"
  shows "\<not> form_matches cfg ''Email''" "form_matches cfg ''First Name''"
  using assms
  by (simp_all add: form_matches_def lower_def lower_char_def ascii_uppercase_def
      ascii_lowercase_def)

lemma demo_run_exits:
  assumes nm: "next_match cfg = ''next page''"
    and fm: "form_match cfg = ''first name''"
    and out: "output_data_dir cfg = Some d"
    and bound: "formdepth cfg = 0 \<or> 5 \<le> formdepth cfg"
    and gen: "make_input_generator cfg = (plans, None)" "plans \<noteq> []"
    and depth: "depth \<le> maxdepth cfg"
    and page: "browser w = 0"
  shows "\<exists>w'. run demo_control cfg depth w = Some (Exited 0 w')
           \<and> actions w' = actions w @ concat (map (plan_actions 1) plans)"
proof -
  obtain w1 where s1: "save_screenshot demo_control cfg w = Done w1"
    "browser w1 = browser w" "actions w1 = actions w"
    using save_screenshot_ok [OF out] by blast
  have "''search_pages'' \<in> set classes" by (simp add: classes_def)
  then obtain w2 where s2: "save_training_page demo_control cfg (Some ''search_pages'') w1 = Done w2"
    "browser w2 = browser w1" "actions w2 = actions w1"
    using save_training_page_ok by blast
  obtain w3 where s3: "save_screenshot demo_control cfg w2 = Done w3"
    "browser w3 = browser w2" "actions w3 = actions w2"
    using save_screenshot_ok [OF out] by blast
  obtain w4 where r: "run_input_phases demo_control cfg 1 plans False w3
                        = Some (Done (False \<or> plans \<noteq> [], w4))"
    "actions w4 = actions w3 @ concat (map (plan_actions 1) plans)"
    using demo_input_phases [OF nm out bound] by blast
  have fv: "form_vectors demo_control (browser w1) = [''Email''] @ ''First Name'' # []"
    using s1(2) page by (simp add: demo_control_def)
  have pre: "\<forall>f\<in>set [''Email'']. \<not> form_matches cfg f"
    using demo_forms(1) [OF fm] by simp
  have r': "run_input_phases demo_control cfg (length [''Email'']) plans False w3
            = Some (Done (False \<or> plans \<noteq> [], w4))"
    using r(1) by simp
  have "run demo_control cfg depth w = Some (Exited 0 w4)"
    by (rule run_exits_after_plans
        [OF depth s1(1) fv pre demo_forms(2) [OF fm] s2(1) s3(1) gen(1) gen(2) r'])
  moreover have "actions w4 = actions w @ concat (map (plan_actions 1) plans)"
    using r(2) s3(3) s2(3) s1(3) by simp
  ultimately show ?thesis by blast
qed

lemma demo_generator:
  "make_input_generator demo_config = ([[(0, ''ann'')], [(0, ''bob'')]], None)"
  by (simp add: make_input_generator_def demo_config_def default_config_def re_split_def bs_def)




text \<open>
  C1. \<^verbatim>\<open>run\<close> calls \<^verbatim>\<open>keep_clicking_next_btns(maxdepth=3)\<close>, but the body of that function
  never reads \<^verbatim>\<open>maxdepth\<close>: its result is the same for every argument, and the loop is
  bounded by \<^verbatim>\<open>self.formdepth\<close> alone. On the small site, with \<^verbatim>\<open>formdepth\<close> 0, the
  follower makes five hops after each submit, not at most three.
\<close>

theorem next_btn_bound_ignores_argument:
  "keep_clicking_next_btns C cfg 3 w = keep_clicking_next_btns C cfg maxdepth_arg w
   \<and> formdepth demo_config = 0
   \<and> final_actions (keep_clicking_next_btns demo_control demo_config 3
         (demo_world\<lparr>browser := 1\<rparr>))
       = replicate 5 (ActSelectButton 1) @ replicate 5 ActBack
   \<and> final_actions (run demo_control demo_config 0 demo_world)
       = [ActInput 1 0 ''ann'', ActSubmit 1] @ replicate 5 (ActSelectButton 1)
         @ replicate 6 ActBack
         @ [ActInput 1 0 ''bob'', ActSubmit 1] @ replicate 5 (ActSelectButton 1)
         @ replicate 6 ActBack"
proof -
  have nm: "next_match demo_config = ''next page''"
    and fm: "form_match demo_config = ''first name''"
    and out: "output_data_dir demo_config = Some ''out''"
    and fd: "formdepth demo_config = 0"
    and md: "0 \<le> maxdepth demo_config"
    by (simp_all add: demo_config_def default_config_def)
  from fd have bound: "formdepth demo_config = 0 \<or> 5 \<le> formdepth demo_config" by simp
  have a: "keep_clicking_next_btns C cfg 3 w = keep_clicking_next_btns C cfg maxdepth_arg w"
    by (simp add: keep_clicking_next_btns_def)
  obtain w1 where k: "keep_clicking_next_btns demo_control demo_config 3
                        (demo_world\<lparr>browser := 1\<rparr>) = Some (Done w1)"
    "actions w1 = actions (demo_world\<lparr>browser := 1\<rparr>)
                  @ replicate 5 (ActSelectButton 1) @ replicate 5 ActBack"
    using demo_keep_clicking [OF nm out bound, of "demo_world\<lparr>browser := 1\<rparr>" 3] by auto
  have b: "final_actions (keep_clicking_next_btns demo_control demo_config 3
             (demo_world\<lparr>browser := 1\<rparr>))
           = replicate 5 (ActSelectButton 1) @ replicate 5 ActBack"
    using k by (simp add: final_actions_def final_world_def demo_world_def)
  have "[[(0, ''ann'')], [(0::int, ''bob'')]] \<noteq> []" by simp
  then obtain w2 where r: "run demo_control demo_config 0 demo_world = Some (Exited 0 w2)"
    "actions w2 = actions demo_world
                  @ concat (map (plan_actions 1) [[(0, ''ann'')], [(0, ''bob'')]])"
    using demo_run_exits [OF nm fm out bound demo_generator _ md, of demo_world]
    by (auto simp: demo_world_def)
  have c: "final_actions (run demo_control demo_config 0 demo_world)
       = [ActInput 1 0 ''ann'', ActSubmit 1] @ replicate 5 (ActSelectButton 1)
         @ replicate 6 ActBack
         @ [ActInput 1 0 ''bob'', ActSubmit 1] @ replicate 5 (ActSelectButton 1)
         @ replicate 6 ActBack"
    using r by (simp add: final_actions_def final_world_def demo_world_def plan_actions_def)
  from a fd b c show ?thesis by blast
qed



theorem scrape_success_exits_witness:
  "(0::int) \<le> maxdepth demo_config
   \<and> save_screenshot demo_control demo_config demo_world
       = Done (world_of (save_screenshot demo_control demo_config demo_world))
   \<and> form_vectors demo_control
        (browser (world_of (save_screenshot demo_control demo_config demo_world)))
       = [''Email''] @ ''First Name'' # []
   \<and> \<not> form_matches demo_config ''Email''
   \<and> form_matches demo_config ''First Name''
   \<and> make_input_generator demo_config = ([[(0, ''ann'')], [(0, ''bob'')]], None)
   \<and> run demo_control demo_config 0 demo_world
       = Some (Exited 0 (world_of (the (run demo_control demo_config 0 demo_world))))
   \<and> final_actions (run demo_control demo_config 0 demo_world)
       = [ActInput 1 0 ''ann'', ActSubmit 1] @ replicate 5 (ActSelectButton 1)
         @ replicate 6 ActBack
         @ [ActInput 1 0 ''bob'', ActSubmit 1] @ replicate 5 (ActSelectButton 1)
         @ replicate 6 ActBack"
proof -
  have nm: "next_match demo_config = ''next page''"
    and fm: "form_match demo_config = ''first name''"
    and out: "output_data_dir demo_config = Some ''out''"
    and bound: "formdepth demo_config = 0 \<or> 5 \<le> formdepth demo_config"
    and md: "0 \<le> maxdepth demo_config"
    by (simp_all add: demo_config_def default_config_def)
  obtain w1 where s1: "save_screenshot demo_control demo_config demo_world = Done w1"
    "browser w1 = browser demo_world" "actions w1 = actions demo_world"
    using save_screenshot_ok [OF out] by blast
  have "''search_pages'' \<in> set classes" by (simp add: classes_def)
  then obtain w2 where
    s2: "save_training_page demo_control demo_config (Some ''search_pages'') w1 = Done w2"
    "browser w2 = browser w1" "actions w2 = actions w1"
    using save_training_page_ok by blast
  obtain w3 where s3: "save_screenshot demo_control demo_config w2 = Done w3"
    "browser w3 = browser w2" "actions w3 = actions w2"
    using save_screenshot_ok [OF out] by blast
  obtain w4 where r: "run_input_phases demo_control demo_config 1
                        [[(0, ''ann'')], [(0, ''bob'')]] False w3
                      = Some (Done (False \<or> [[(0, ''ann'')], [(0::int, ''bob'')]] \<noteq> [], w4))"
    "actions w4 = actions w3 @ concat (map (plan_actions 1) [[(0, ''ann'')], [(0, ''bob'')]])"
    using demo_input_phases [OF nm out bound] by blast
  have fv: "form_vectors demo_control (browser w1) = [''Email''] @ ''First Name'' # []"
    using s1(2) by (simp add: demo_control_def demo_world_def)
  have pre: "\<forall>f\<in>set [''Email'']. \<not> form_matches demo_config f"
    using demo_forms(1) [OF fm] by simp
  have ne: "[[(0, ''ann'')], [(0::int, ''bob'')]] \<noteq> []" by simp
  have r': "run_input_phases demo_control demo_config (length [''Email''])
              [[(0, ''ann'')], [(0, ''bob'')]] False w3 = Some (Done (True, w4))"
    using r(1) by simp
  have run: "run demo_control demo_config 0 demo_world = Some (Exited 0 w4)"
    by (rule scrape_success_exits
        [OF md s1(1) fv pre demo_forms(2) [OF fm] s2(1) s3(1) demo_generator ne r'])
  have a: "save_screenshot demo_control demo_config demo_world
           = Done (world_of (save_screenshot demo_control demo_config demo_world))"
    using s1(1) by (simp add: world_of_def)
  have b: "form_vectors demo_control
             (browser (world_of (save_screenshot demo_control demo_config demo_world)))
           = [''Email''] @ ''First Name'' # []"
    using fv s1(1) by (simp add: world_of_def)
  have c: "run demo_control demo_config 0 demo_world
           = Some (Exited 0 (world_of (the (run demo_control demo_config 0 demo_world))))"
    using run by (simp add: world_of_def)
  have e: "final_actions (run demo_control demo_config 0 demo_world)
       = [ActInput 1 0 ''ann'', ActSubmit 1] @ replicate 5 (ActSelectButton 1)
         @ replicate 6 ActBack
         @ [ActInput 1 0 ''bob'', ActSubmit 1] @ replicate 5 (ActSelectButton 1)
         @ replicate 6 ActBack"
    using run r(2) s3(3) s2(3) s1(3)
    by (simp add: final_actions_def final_world_def demo_world_def plan_actions_def)
  from md a b demo_forms(1) [OF fm] demo_forms(2) [OF fm] demo_generator c e
  show ?thesis by blast
qed

section \<open>Properties of character iteration\<close>

lemma concat_concat_map: "concat (concat (map f xs)) = concat (map (\<lambda>x. concat (f x)) xs)"
  by (induction xs) simp_all

lemma product_repeat_Cons:
  "product_repeat A (Suc n) = concat (map (\<lambda>a. map ((#) a) (product_repeat A n)) A)"
proof (induction n)
  case 0
  show ?case by (simp add: o_def)
next
  case (Suc n)
  let ?P = "product_repeat A n"
  have "product_repeat A (Suc (Suc n))
        = concat (map (\<lambda>x. map (\<lambda>y. x @ [y]) A) (product_repeat A (Suc n)))"
    by simp
  also have "\<dots> = concat (map (\<lambda>x. map (\<lambda>y. x @ [y]) A)
                       (concat (map (\<lambda>a. map ((#) a) ?P) A)))"
    by (simp only: Suc.IH)
  also have "\<dots> = concat (map (\<lambda>a. concat (map (\<lambda>x. map (\<lambda>y. a # x @ [y]) A) ?P)) A)"
    by (simp add: map_concat o_def concat_concat_map)
  also have "\<dots> = concat (map (\<lambda>a. map ((#) a) (product_repeat A (Suc n))) A)"
    by (simp add: map_concat o_def)
  finally show ?case .
qed

lemma length_concat_const:
  "(\<And>x. x \<in> set xs \<Longrightarrow> length (f x) = k) \<Longrightarrow> length (concat (map f xs)) = length xs * k"
  by (induction xs) simp_all

lemma length_product_repeat: "length (product_repeat A n) = length A ^ n"
proof (induction n)
  case 0
  show ?case by simp
next
  case (Suc n)
  have "length (product_repeat A (Suc n)) = length (product_repeat A n) * length A"
    unfolding product_repeat.simps by (rule length_concat_const) simp
  with Suc show ?case by simp
qed

lemma set_product_repeat:
  "set (product_repeat A n) = {v. length v = n \<and> set v \<subseteq> set A}"
proof (induction n)
  case 0
  show ?case by auto
next
  case (Suc n)
  have "set (product_repeat A (Suc n)) = {a # v | a v. a \<in> set A \<and> v \<in> set (product_repeat A n)}"
    unfolding product_repeat_Cons by auto
  also have "\<dots> = {a # v | a v. a \<in> set A \<and> length v = n \<and> set v \<subseteq> set A}"
    using Suc.IH by simp
  also have "\<dots> = {v. length v = Suc n \<and> set v \<subseteq> set A}"
    by (auto simp: length_Suc_conv)
  finally show ?case .
qed

lemma position_nth: "distinct A \<Longrightarrow> i < length A \<Longrightarrow> position A (A ! i) = i"
proof (induction A arbitrary: i)
  case Nil
  then show ?case by simp
next
  case (Cons x xs)
  show ?case
  proof (cases i)
    case 0
    then show ?thesis by simp
  next
    case (Suc j)
    with Cons.prems have "j < length xs" "xs ! j \<in> set xs" "x \<notin> set xs" by simp_all
    then have "x \<noteq> xs ! j" by blast
    with Suc Cons show ?thesis by simp
  qed
qed

lemma sorted_alphabet:
  assumes "distinct A"
  shows "sorted_wrt (\<lambda>a b. (a, b) \<in> alphabet_order A) A"
  unfolding sorted_wrt_iff_nth_less alphabet_order_def
  using assms by (simp add: position_nth)

lemma sorted_wrt_concat_map:
  assumes "sorted_wrt Q xs"
    and "\<And>a. a \<in> set xs \<Longrightarrow> sorted_wrt R (f a)"
    and "\<And>a b x y. Q a b \<Longrightarrow> x \<in> set (f a) \<Longrightarrow> y \<in> set (f b) \<Longrightarrow> R x y"
  shows "sorted_wrt R (concat (map f xs))"
  using assms(1,2)
proof (induction xs)
  case Nil
  show ?case by simp
next
  case (Cons a xs)
  have "sorted_wrt R (f a)" using Cons.prems(2) by simp
  moreover have "sorted_wrt R (concat (map f xs))"
    using Cons.prems by (intro Cons.IH) simp_all
  moreover have "R x y" if "x \<in> set (f a)" "y \<in> set (concat (map f xs))" for x y
  proof -
    from that(2) obtain b where b: "b \<in> set xs" "y \<in> set (f b)" by auto
    with Cons.prems(1) have "Q a b" by simp
    then show ?thesis using that(1) b(2) by (rule assms(3))
  qed
  ultimately show ?case by (simp add: sorted_wrt_append)
qed

lemma sorted_product_repeat:
  assumes "distinct A"
  shows "sorted_wrt (\<lambda>u v. (u, v) \<in> lexord (alphabet_order A)) (product_repeat A n)"
proof (induction n)
  case 0
  show ?case by simp
next
  case (Suc n)
  show ?case unfolding product_repeat_Cons
  proof (rule sorted_wrt_concat_map [where Q = "\<lambda>a b. (a, b) \<in> alphabet_order A"])
    show "sorted_wrt (\<lambda>a b. (a, b) \<in> alphabet_order A) A" by (rule sorted_alphabet [OF assms])
  next
    fix a
    show "sorted_wrt (\<lambda>u v. (u, v) \<in> lexord (alphabet_order A)) (map ((#) a) (product_repeat A n))"
      unfolding sorted_wrt_map
      by (rule sorted_wrt_mono_rel [OF _ Suc.IH]) simp
  next
    fix a b x y
    assume "(a, b) \<in> alphabet_order A" "x \<in> set (map ((#) a) (product_repeat A n))"
      "y \<in> set (map ((#) b) (product_repeat A n))"
    then show "(x, y) \<in> lexord (alphabet_order A)" by auto
  qed
qed

lemma distinct_product_repeat:
  assumes "distinct A"
  shows "distinct (product_repeat A n)"
proof -
  have irr: "(u, u) \<notin> lexord (alphabet_order A)" for u
    by (rule lexord_irreflexive) (simp add: alphabet_order_def)
  have "sorted_wrt (\<lambda>u v. u \<noteq> v) (product_repeat A n)"
  proof (rule sorted_wrt_mono_rel [OF _ sorted_product_repeat [OF assms, of n]])
    fix u v
    assume "(u, v) \<in> lexord (alphabet_order A)"
    with irr show "u \<noteq> v" by blast
  qed
  then show ?thesis by (simp add: distinct_conv_nth sorted_wrt_iff_nth_less) (metis nat_neq_iff)
qed

lemma character_iteration_plans:
  assumes "0 \<le> len"
  shows "character_iteration_input_generator cfg len
         = (map (\<lambda>v. [(form_input_index cfg, v @ input_suffix cfg)])
              (product_repeat (input_chars cfg) (nat len)), None)"
  using assms
  by (simp add: character_iteration_input_generator_def input_chars_def input_suffix_def)

lemma input_chars_wildcard: "input_chars (cfg\<lparr>wildcard := x\<rparr>) = input_chars cfg"
  by (simp add: input_chars_def)

text \<open>
  C4 as stated fails for an alphabet with a repeated character: with \<^verbatim>\<open>form_input_range\<close>
  \<^verbatim>\<open>"aa"\<close> and length 1 the generator yields the string \<^verbatim>\<open>a\<close> twice.
\<close>

theorem character_iteration_counterexample:
  "make_input_generator (default_config\<lparr>form_input_range := Some ''aa''\<rparr>)
     = ([[(0, ''a'')], [(0, ''a'')]], None)
   \<and> \<not> distinct (fst (make_input_generator (default_config\<lparr>form_input_range := Some ''aa''\<rparr>)))"
  by (simp add: make_input_generator_def default_config_def
      character_iteration_input_generator_def truthy_def)

text \<open>
  C4, as the code has it. In \<^verbatim>\<open>character_iteration\<close> mode with a length \<open>L \<ge> 0\<close>, the
  generator ends without raising and yields one plan for each element of a list
  \<open>vals\<close> of strings, in order, each plan a single assignment to \<^verbatim>\<open>form_input_index\<close>
  of the string followed by the wildcard (if one is set). Without the wildcard the same
  strings are yielded in the same order. \<open>vals\<close> has \<open>length A ^ L\<close> elements and
  consists of exactly the strings of length \<open>L\<close> over the alphabet \<open>A\<close>. If no character
  is repeated in \<open>A\<close>, the strings are pairwise distinct and in strictly increasing
  lexicographic order, for the order of the characters in \<open>A\<close>.
\<close>

theorem character_iteration_enumerates:
  assumes "input_type cfg = ''character_iteration''"
    and "0 \<le> input_minlength cfg"
  shows "\<exists>vals.
           make_input_generator cfg
             = (map (\<lambda>v. [(form_input_index cfg, v @ input_suffix cfg)]) vals, None)
           \<and> make_input_generator (cfg\<lparr>wildcard := None\<rparr>)
             = (map (\<lambda>v. [(form_input_index cfg, v)]) vals, None)
           \<and> length vals = length (input_chars cfg) ^ nat (input_minlength cfg)
           \<and> set vals = {v. length v = nat (input_minlength cfg) \<and> set v \<subseteq> set (input_chars cfg)}
           \<and> (distinct (input_chars cfg)
                \<longrightarrow> distinct vals
                    \<and> sorted_wrt (\<lambda>u v. (u, v) \<in> lexord (alphabet_order (input_chars cfg))) vals)"
proof -
  let ?vals = "product_repeat (input_chars cfg) (nat (input_minlength cfg))"
  have a: "make_input_generator cfg
           = (map (\<lambda>v. [(form_input_index cfg, v @ input_suffix cfg)]) ?vals, None)"
    using assms by (simp add: make_input_generator_def character_iteration_plans)
  have b: "make_input_generator (cfg\<lparr>wildcard := None\<rparr>)
           = (map (\<lambda>v. [(form_input_index cfg, v)]) ?vals, None)"
    using assms
    by (simp add: make_input_generator_def character_iteration_plans input_chars_wildcard)
      (simp add: input_suffix_def truthy_def)
  have c: "length ?vals = length (input_chars cfg) ^ nat (input_minlength cfg)"
    by (rule length_product_repeat)
  have d: "set ?vals = {v. length v = nat (input_minlength cfg) \<and> set v \<subseteq> set (input_chars cfg)}"
    by (rule set_product_repeat)
  have e: "distinct (input_chars cfg)
           \<longrightarrow> distinct ?vals
               \<and> sorted_wrt (\<lambda>u v. (u, v) \<in> lexord (alphabet_order (input_chars cfg))) ?vals"
    using distinct_product_repeat sorted_product_repeat by blast
  from a b c d e show ?thesis by blast
qed

theorem character_iteration_enumerates_witness:
  "input_type (default_config\<lparr>form_input_range := Some ''ab'', input_minlength := 2,
                 wildcard := Some ''%''\<rparr>) = ''character_iteration''
   \<and> 0 \<le> input_minlength (default_config\<lparr>form_input_range := Some ''ab'', input_minlength := 2,
                 wildcard := Some ''%''\<rparr>)
   \<and> distinct (input_chars (default_config\<lparr>form_input_range := Some ''ab'', input_minlength := 2,
                 wildcard := Some ''%''\<rparr>))
   \<and> (\<exists>vals.
         make_input_generator (default_config\<lparr>form_input_range := Some ''ab'',
             input_minlength := 2, wildcard := Some ''%''\<rparr>)
           = (map (\<lambda>v. [(0, v @ ''%'')]) vals, None)
         \<and> make_input_generator (default_config\<lparr>form_input_range := Some ''ab'',
             input_minlength := 2, wildcard := None\<rparr>)
           = (map (\<lambda>v. [(0, v)]) vals, None)
         \<and> length vals = 4
         \<and> distinct vals
         \<and> sorted_wrt (\<lambda>u v. (u, v) \<in> lexord (alphabet_order ''ab'')) vals)
   \<and> make_input_generator (default_config\<lparr>form_input_range := Some ''ab'',
         input_minlength := 2, wildcard := Some ''%''\<rparr>)
      = ([[(0, ''aa%'')], [(0, ''ab%'')], [(0, ''ba%'')], [(0, ''bb%'')]], None)"
proof -
  let ?cfg = "default_config\<lparr>form_input_range := Some ''ab'', input_minlength := 2,
                 wildcard := Some ''%''\<rparr>"
  have h1: "input_type ?cfg = ''character_iteration''" by (simp add: default_config_def)
  have h2: "0 \<le> input_minlength ?cfg" by simp
  have ch: "input_chars ?cfg = ''ab''" by (simp add: input_chars_def truthy_def)
  have sf: "input_suffix ?cfg = ''%''" by (simp add: input_suffix_def truthy_def)
  have ix: "form_input_index ?cfg = 0" by (simp add: default_config_def)
  have h3: "distinct (input_chars ?cfg)" by (simp add: ch)
  have wc: "?cfg\<lparr>wildcard := None\<rparr> = default_config\<lparr>form_input_range := Some ''ab'',
             input_minlength := 2, wildcard := None\<rparr>"
    by simp
  from character_iteration_enumerates [OF h1 h2] h3
  obtain vals where v:
    "make_input_generator ?cfg
       = (map (\<lambda>v. [(form_input_index ?cfg, v @ input_suffix ?cfg)]) vals, None)"
    "make_input_generator (?cfg\<lparr>wildcard := None\<rparr>)
       = (map (\<lambda>v. [(form_input_index ?cfg, v)]) vals, None)"
    "length vals = length (input_chars ?cfg) ^ nat (input_minlength ?cfg)"
    "distinct vals"
    "sorted_wrt (\<lambda>u v. (u, v) \<in> lexord (alphabet_order (input_chars ?cfg))) vals"
    by blast
  have p: "\<exists>vals.
         make_input_generator ?cfg = (map (\<lambda>v. [(0, v @ ''%'')]) vals, None)
         \<and> make_input_generator (default_config\<lparr>form_input_range := Some ''ab'',
             input_minlength := 2, wildcard := None\<rparr>)
           = (map (\<lambda>v. [(0, v)]) vals, None)
         \<and> length vals = 4
         \<and> distinct vals
         \<and> sorted_wrt (\<lambda>u v. (u, v) \<in> lexord (alphabet_order ''ab'')) vals"
  proof (intro exI [of _ vals] conjI)
    show "make_input_generator ?cfg = (map (\<lambda>v. [(0, v @ ''%'')]) vals, None)"
      using v(1) unfolding sf ix .
    show "make_input_generator (default_config\<lparr>form_input_range := Some ''ab'',
             input_minlength := 2, wildcard := None\<rparr>)
           = (map (\<lambda>v. [(0, v)]) vals, None)"
      using v(2) unfolding ix wc .
    have "length (input_chars ?cfg) ^ nat (input_minlength ?cfg) = 4"
      unfolding ch by (simp add: power2_eq_square)
    with v(3) show "length vals = 4" by simp
    show "distinct vals" by (rule v(4))
    show "sorted_wrt (\<lambda>u v. (u, v) \<in> lexord (alphabet_order ''ab'')) vals"
      using v(5) unfolding ch .
  qed
  have q: "make_input_generator ?cfg
      = ([[(0, ''aa%'')], [(0, ''ab%'')], [(0, ''ba%'')], [(0, ''bb%'')]], None)"
    by (simp add: make_input_generator_def default_config_def
        character_iteration_input_generator_def truthy_def numeral_2_eq_2)
  from h1 h2 h3 p q show ?thesis by blast
qed

end
